theory Spec2Isabelle
  imports Main "HOL-Library.Sublist"
begin

section \<open>Effects: thrown errors, the remote store, the record of external calls\<close>

text \<open>
  Every \<^verbatim>\<open>throw new Error(msg)\<close> of the source, and every rejected promise of a
  collaborator (\<^verbatim>\<open>admin.graphql\<close>, \<^verbatim>\<open>response.json()\<close>, the OpenAI client), is a value
  \<open>Error msg\<close>.
\<close>

datatype js_error = Error string

text \<open>\<^verbatim>\<open>interface DailyUsage { count: number; date: string }\<close> of \<^verbatim>\<open>usage.server\<close>.\<close>

record DailyUsage =
  count :: int
  date :: string

text \<open>
  The shop metafield \<^verbatim>\<open>ai_reply.daily_usage\<close> as \<^verbatim>\<open>getDailyUsage\<close> sees it:
  \<^item> \<open>NoValue\<close>: no metafield, or a falsy \<^verbatim>\<open>value\<close> (\<^verbatim>\<open>!metafield?.value\<close>);
  \<^item> \<open>Unparseable\<close>: a value on which \<^verbatim>\<open>JSON.parse\<close> throws;
  \<^item> \<open>Parsed u\<close>: a value that \<^verbatim>\<open>JSON.parse\<close> turns into the \<^verbatim>\<open>DailyUsage\<close> \<open>u\<close>.

  The serialisation itself is not modelled: what \<^verbatim>\<open>JSON.stringify(usage)\<close> writes is read
  back by \<^verbatim>\<open>JSON.parse\<close> as the same \<^verbatim>\<open>usage\<close> (an integer count and a string date).
  A stored \<^verbatim>\<open>null\<close> is read as no usage, like \<open>NoValue\<close>. Stored JSON of any other shape
  than the one the cast \<^verbatim>\<open>as DailyUsage\<close> asserts is outside the model.
\<close>

datatype metafield_value = NoValue | Unparseable | Parsed DailyUsage

text \<open>
  The external calls a request makes, in the order it makes them. \<open>MetafieldsSet u\<close> is the
  mutation sent with \<^verbatim>\<open>JSON.stringify(u)\<close>; \<open>GenerateReply m t\<close> is the invocation
  of \<^verbatim>\<open>generateAIReply(m, t)\<close> with the two form fields as \<^verbatim>\<open>formData.get\<close> gave them.
\<close>

datatype call =
    SubscriptionsQuery
  | SubscriptionCreate string
  | MetafieldQuery
  | ShopIdQuery
  | MetafieldsSet DailyUsage
  | GenerateReply "string option" "string option"

record world =
  metafield :: metafield_value
  calls :: "call list"

text \<open>
  \<^verbatim>\<open>activeSubscriptions { name status createdAt trialDays }\<close>. \<open>createdAt\<close> is the
  provider's string as the code uses it: \<open>CreatedMissing\<close> when \<^verbatim>\<open>!subscription.createdAt\<close>,
  \<open>CreatedInvalid\<close> when \<^verbatim>\<open>new Date(createdAt)\<close> is an Invalid Date, \<open>CreatedAt t\<close> when it is
  the valid time value \<open>t\<close> (milliseconds since the epoch, \<^verbatim>\<open>getTime()\<close>). \<open>trialDays\<close> is \<open>None\<close>
  when the field is null or absent.
\<close>

datatype created_at = CreatedMissing | CreatedInvalid | CreatedAt int

record subscription =
  name :: string
  status :: string
  createdAt :: created_at
  trialDays :: "int option"

text \<open>\<^verbatim>\<open>appSubscriptionCreate { confirmationUrl userErrors { message } }\<close>.\<close>

record create_payload =
  userErrors :: "string list"
  confirmationUrl :: "string option"

text \<open>
  What the clock, the host's time zone and the collaborators answer during one request.
  A sum is \<open>Inl\<close> when the call throws. \<open>shopIdResponse\<close> is \<^verbatim>\<open>data?.shop?.id\<close>;
  \<open>metafieldsSetResponse\<close> is the list of \<^verbatim>\<open>userErrors\<close> messages of the mutation;
  \<open>generateResponse\<close> is what \<^verbatim>\<open>generateAIReply\<close> returns or throws.

  The time zone is the pair of offset functions of ECMAScript, in milliseconds:
  \<open>localTZA_utc t\<close> is \<^verbatim>\<open>LocalTZA(t, true)\<close>, the offset of local time from UTC at the
  instant \<open>t\<close>; \<open>localTZA_local t\<close> is \<^verbatim>\<open>LocalTZA(t, false)\<close>, the offset that applies to
  the local time value \<open>t\<close>. Both are constantly 0 on a host running in UTC.
\<close>

record env =
  today :: string
  now :: int
  localTZA_utc :: "int \<Rightarrow> int"
  localTZA_local :: "int \<Rightarrow> int"
  subscriptionsResponse :: "js_error + subscription list"
  createResponse :: "js_error + create_payload"
  metafieldQueryFails :: "js_error option"
  shopIdResponse :: "js_error + string option"
  metafieldsSetResponse :: "js_error + string list"
  generateResponse :: "js_error + string"

type_synonym 'a io = "world \<Rightarrow> (js_error + 'a) \<times> world"

definition return_io :: "'a \<Rightarrow> 'a io" where
  "return_io x w = (Inr x, w)"

definition throw_io :: "js_error \<Rightarrow> 'a io" where
  "throw_io e w = (Inl e, w)"

text \<open>\<^verbatim>\<open>const x = await m; ...\<close>: a throw of \<open>m\<close> skips the rest.\<close>

definition bind_io :: "'a io \<Rightarrow> ('a \<Rightarrow> 'b io) \<Rightarrow> 'b io" where
  "bind_io m f w = (case m w of (Inl e, w') \<Rightarrow> (Inl e, w') | (Inr x, w') \<Rightarrow> f x w')"

text \<open>\<^verbatim>\<open>try { m } catch (error) { h }\<close>.\<close>

definition catch_io :: "'a io \<Rightarrow> (js_error \<Rightarrow> 'a io) \<Rightarrow> 'a io" where
  "catch_io m h w = (case m w of (Inl e, w') \<Rightarrow> h e w' | (Inr x, w') \<Rightarrow> (Inr x, w'))"

definition external :: "call \<Rightarrow> unit io" where
  "external c w = (Inr (), w\<lparr>calls := calls w @ [c]\<rparr>)"

text \<open>\<^verbatim>\<open>Array.prototype.join\<close> on strings.\<close>

fun join :: "string \<Rightarrow> string list \<Rightarrow> string" where
  "join sep [] = []"
| "join sep [x] = x"
| "join sep (x # y # ys) = x @ sep @ join sep (y # ys)"

section \<open>Usage counter (\<^verbatim>\<open>usage.server\<close>)\<close>

definition DAILY_LIMIT :: int where
  "DAILY_LIMIT = 100"

definition getTodayDateString :: "env \<Rightarrow> string" where
  "getTodayDateString e = today e"

definition getDailyUsage :: "env \<Rightarrow> DailyUsage option io" where
  "getDailyUsage e =
     bind_io (external MetafieldQuery) (\<lambda>_ w.
       case metafieldQueryFails e of
         Some err \<Rightarrow> (Inl err, w)
       | None \<Rightarrow>
           (case metafield w of
              NoValue \<Rightarrow> (Inr None, w)
            | Unparseable \<Rightarrow> (Inr None, w)
            | Parsed u \<Rightarrow> (Inr (Some u), w)))"

definition getShopId :: "env \<Rightarrow> string io" where
  "getShopId e =
     bind_io (external ShopIdQuery) (\<lambda>_.
       case shopIdResponse e of
         Inl err \<Rightarrow> throw_io err
       | Inr None \<Rightarrow> throw_io (Error ''Failed to get shop ID'')
       | Inr (Some shopId) \<Rightarrow>
           if shopId = [] then throw_io (Error ''Failed to get shop ID'')
           else return_io shopId)"

text \<open>
  The mutation stores the value when the provider answers with no \<^verbatim>\<open>userErrors\<close>; a
  mutation that throws or is answered with errors leaves the metafield as it was.
\<close>

definition saveDailyUsage :: "env \<Rightarrow> DailyUsage \<Rightarrow> unit io" where
  "saveDailyUsage e usage =
     bind_io (getShopId e) (\<lambda>shopId.
     bind_io (external (MetafieldsSet usage)) (\<lambda>_ w.
       case metafieldsSetResponse e of
         Inl err \<Rightarrow> (Inl err, w)
       | Inr errors \<Rightarrow>
           if length errors > 0
           then (Inl (Error (''Failed to save metafield: '' @ join '', '' errors)), w)
           else (Inr (), w\<lparr>metafield := Parsed usage\<rparr>)))"

definition getCurrentUsageCount :: "env \<Rightarrow> int io" where
  "getCurrentUsageCount e =
     (let today = getTodayDateString e in
      bind_io (getDailyUsage e) (\<lambda>currentUsage.
        case currentUsage of
          None \<Rightarrow> return_io 0
        | Some u \<Rightarrow> if date u \<noteq> today then return_io 0 else return_io (count u)))"

record UsageDecision =
  allowed :: bool
  currentCount :: int

definition checkAndIncrementUsage :: "env \<Rightarrow> UsageDecision io" where
  "checkAndIncrementUsage e =
     (let today = getTodayDateString e;
          reset = bind_io (saveDailyUsage e \<lparr>count = 1, date = today\<rparr>) (\<lambda>_.
                    return_io \<lparr>allowed = True, currentCount = 1\<rparr>)
      in
      bind_io (getDailyUsage e) (\<lambda>currentUsage.
        case currentUsage of
          None \<Rightarrow> reset
        | Some u \<Rightarrow>
            if date u \<noteq> today then reset
            else if count u \<ge> DAILY_LIMIT
            then return_io \<lparr>allowed = False, currentCount = count u\<rparr>
            else bind_io (saveDailyUsage e \<lparr>count = count u + 1, date = today\<rparr>) (\<lambda>_.
                   return_io \<lparr>allowed = True, currentCount = count u + 1\<rparr>)))"

text \<open>Sequential calls of \<^verbatim>\<open>checkAndIncrementUsage\<close>, one per element of the list.\<close>

fun sequential_calls :: "env list \<Rightarrow> world \<Rightarrow> (js_error + UsageDecision) list \<times> world" where
  "sequential_calls [] w = ([], w)"
| "sequential_calls (e # es) w =
     (case checkAndIncrementUsage e w of
        (r, w') \<Rightarrow> (case sequential_calls es w' of (rs, w'') \<Rightarrow> (r # rs, w'')))"

section \<open>Billing (\<^verbatim>\<open>billing.server\<close>)\<close>

text \<open>
  \<^verbatim>\<open>Math.ceil(x / d)\<close> for an integer number of milliseconds \<open>x\<close> and \<open>d > 0\<close>. The
  quotient of the source is a double, correctly rounded; for \<open>d\<close> the milliseconds of a
  day and \<open>0 \<le> x < 2 ^ 53\<close> (a clock reading after 1970 and a trial end in the range of
  \<^verbatim>\<open>Date\<close>) its ceiling is the ceiling of the exact quotient.
\<close>

definition ceil_div :: "int \<Rightarrow> int \<Rightarrow> int" where
  "ceil_div x d = - ((- x) div d)"

text \<open>\<^verbatim>\<open>1000 * 60 * 60 * 24\<close>\<close>

definition ms_per_day :: int where
  "ms_per_day = 1000 * 60 * 60 * 24"

text \<open>
  \<^verbatim>\<open>TimeClip\<close>: a time value beyond 8.64e15 milliseconds from the epoch is an Invalid
  Date, here \<open>None\<close>.
\<close>

definition MAX_TIME :: int where
  "MAX_TIME = 8640000000000000"

definition time_clip :: "int \<Rightarrow> int option" where
  "time_clip t = (if \<bar>t\<bar> > MAX_TIME then None else Some t)"

text \<open>
  \<^verbatim>\<open>trialEndDate.setDate(trialEndDate.getDate() + trialDays)\<close> on the valid time value
  \<open>t\<close>, as ECMAScript defines \<^verbatim>\<open>setDate\<close>: the local time \<^verbatim>\<open>LocalTime(t)\<close> is moved by
  \<open>n\<close> calendar days with its time within the day kept (\<^verbatim>\<open>MakeDate(MakeDay(year, month,
  getDate() + n), TimeWithinDay)\<close>, which is \<open>n\<close> times 24 hours later on the local time
  line), converted back with \<^verbatim>\<open>UTC\<close> and clipped. \<open>local_after\<close> is that local time value.
\<close>

definition local_after :: "env \<Rightarrow> int \<Rightarrow> int \<Rightarrow> int" where
  "local_after e t n = t + localTZA_utc e t + n * ms_per_day"

definition add_days :: "env \<Rightarrow> int \<Rightarrow> int \<Rightarrow> int option" where
  "add_days e t n = time_clip (local_after e t n - localTZA_local e (local_after e t n))"

record EntitlementState =
  hasAccess :: bool
  isTrial :: bool
  daysRemaining :: "int option"

definition createSubscription :: "env \<Rightarrow> string \<Rightarrow> string io" where
  "createSubscription e returnUrl =
     bind_io (external (SubscriptionCreate returnUrl)) (\<lambda>_.
       case createResponse e of
         Inl err \<Rightarrow> throw_io err
       | Inr payload \<Rightarrow>
           if length (userErrors payload) > 0
           then throw_io (Error (''Failed to create subscription: '' @ join '', '' (userErrors payload)))
           else (case confirmationUrl payload of
                   None \<Rightarrow> throw_io (Error ''No confirmation URL returned from subscription creation'')
                 | Some url \<Rightarrow>
                     if url = []
                     then throw_io (Error ''No confirmation URL returned from subscription creation'')
                     else return_io url))"

text \<open>
  The part of \<^verbatim>\<open>checkActiveSubscription\<close> after the selection: the classification of the
  selected subscription at the instant \<open>now\<close> (\<^verbatim>\<open>new Date()\<close>, in milliseconds). A
  comparison with an Invalid Date is false, so \<open>CreatedInvalid\<close>, and a trial end that
  \<^verbatim>\<open>setDate\<close> leaves invalid, take the expired branch.
  \<^verbatim>\<open>subscription.trialDays || 14\<close> is 14 for a null or absent field and for 0.
\<close>

definition classify :: "env \<Rightarrow> subscription \<Rightarrow> EntitlementState" where
  "classify e sub =
     (if status sub = ''ACTIVE''
      then \<lparr>hasAccess = True, isTrial = False, daysRemaining = None\<rparr>
      else if status sub = ''ACCEPTED'' \<or> status sub = ''TRIAL''
      then (case createdAt sub of
              CreatedMissing \<Rightarrow> \<lparr>hasAccess = True, isTrial = True, daysRemaining = None\<rparr>
            | CreatedInvalid \<Rightarrow> \<lparr>hasAccess = False, isTrial = False, daysRemaining = None\<rparr>
            | CreatedAt created \<Rightarrow>
                (let days = (case trialDays sub of
                               None \<Rightarrow> 14
                             | Some n \<Rightarrow> if n = 0 then 14 else n)
                 in case add_days e created days of
                      None \<Rightarrow> \<lparr>hasAccess = False, isTrial = False, daysRemaining = None\<rparr>
                    | Some trialEndDate \<Rightarrow>
                        if now e \<le> trialEndDate
                        then \<lparr>hasAccess = True, isTrial = True,
                               daysRemaining = Some (ceil_div (trialEndDate - now e) ms_per_day)\<rparr>
                        else \<lparr>hasAccess = False, isTrial = False, daysRemaining = None\<rparr>))
      else \<lparr>hasAccess = False, isTrial = False, daysRemaining = None\<rparr>)"

definition checkActiveSubscription :: "env \<Rightarrow> EntitlementState io" where
  "checkActiveSubscription e =
     bind_io (external SubscriptionsQuery) (\<lambda>_.
       case subscriptionsResponse e of
         Inl err \<Rightarrow> throw_io err
       | Inr subscriptions \<Rightarrow>
           (case find (\<lambda>sub. name sub = ''pro_monthly'') subscriptions of
              None \<Rightarrow> return_io \<lparr>hasAccess = False, isTrial = False, daysRemaining = None\<rparr>
            | Some sub \<Rightarrow> return_io (classify e sub)))"

section \<open>Request handlers (\<^verbatim>\<open>app._index.tsx\<close>)\<close>

text \<open>
  The request after \<^verbatim>\<open>authenticate.admin\<close>: the origin of its URL and the two form
  fields (\<open>None\<close> when \<^verbatim>\<open>formData.get\<close> is null).
\<close>

record request =
  origin :: string
  message :: "string option"
  tone :: "string option"

record loader_data =
  hasSubscription :: bool
  confirmationUrl' :: "string option"
  usageCount :: int
  isTrial' :: bool
  daysRemaining' :: "int option"

record action_data =
  reply :: string
  error :: "string option"

definition usage_or_zero :: "env \<Rightarrow> (int \<Rightarrow> loader_data) \<Rightarrow> loader_data io" where
  \<comment> \<open>\<^verbatim>\<open>try { const usageCount = await getCurrentUsageCount(admin); return {...} } catch { return {... usageCount: 0 ...} }\<close>\<close>
  "usage_or_zero e mk =
     catch_io (bind_io (getCurrentUsageCount e) (\<lambda>usageCount. return_io (mk usageCount)))
       (\<lambda>_. return_io (mk 0))"

definition loader :: "env \<Rightarrow> request \<Rightarrow> loader_data io" where
  "loader e req =
     catch_io
       (bind_io (checkActiveSubscription e) (\<lambda>subscriptionStatus.
          if \<not> hasAccess subscriptionStatus
          then catch_io
                 (bind_io (createSubscription e (origin req @ ''/app'')) (\<lambda>url.
                    return_io \<lparr>hasSubscription = False, confirmationUrl' = Some url,
                               usageCount = 0, isTrial' = False, daysRemaining' = None\<rparr>))
                 (\<lambda>_. usage_or_zero e (\<lambda>n.
                    \<lparr>hasSubscription = True, confirmationUrl' = None,
                     usageCount = n, isTrial' = False, daysRemaining' = None\<rparr>))
          else usage_or_zero e (\<lambda>n.
                 \<lparr>hasSubscription = True, confirmationUrl' = None, usageCount = n,
                  isTrial' = isTrial subscriptionStatus,
                  daysRemaining' = daysRemaining subscriptionStatus\<rparr>)))
       (\<lambda>_. usage_or_zero e (\<lambda>n.
          \<lparr>hasSubscription = True, confirmationUrl' = None,
           usageCount = n, isTrial' = False, daysRemaining' = None\<rparr>))"

definition generateAIReply :: "env \<Rightarrow> string option \<Rightarrow> string option \<Rightarrow> string io" where
  "generateAIReply e msg tn =
     bind_io (external (GenerateReply msg tn)) (\<lambda>_ w. (generateResponse e, w))"

text \<open>\<^verbatim>\<open>!message\<close> on a form field: null or the empty string.\<close>

definition falsy :: "string option \<Rightarrow> bool" where
  "falsy v = (case v of None \<Rightarrow> True | Some s \<Rightarrow> s = [])"

text \<open>
  A \<^verbatim>\<open>try\<close> block of \<open>action\<close> yields \<open>Some r\<close> when it returns \<open>r\<close> from the handler and
  \<open>None\<close> when control falls through to the code after it. Everything
  \<^verbatim>\<open>generateAIReply\<close> throws is an \<^verbatim>\<open>Error\<close>, so the last handler answers with its message.
\<close>

definition action :: "env \<Rightarrow> request \<Rightarrow> action_data io" where
  "action e req =
     bind_io
       (catch_io
          (bind_io (checkActiveSubscription e) (\<lambda>subscriptionStatus.
             if \<not> hasAccess subscriptionStatus
             then return_io (Some \<lparr>reply = [], error = Some
                    ''Subscription required. Your trial has expired or no active subscription found.''\<rparr>)
             else return_io None))
          (\<lambda>_. return_io None))
       (\<lambda>returned.
          case returned of
            Some r \<Rightarrow> return_io r
          | None \<Rightarrow>
              if falsy (message req) \<or> falsy (tone req)
              then return_io \<lparr>reply = [], error = Some ''Message and tone are required''\<rparr>
              else
                bind_io
                  (catch_io
                     (bind_io (checkAndIncrementUsage e) (\<lambda>usageResult.
                        if \<not> allowed usageResult
                        then return_io (Some \<lparr>reply = [], error = Some
                               ''Daily limit of 100 replies reached''\<rparr>)
                        else return_io None))
                     (\<lambda>_. return_io (Some \<lparr>reply = [], error = Some
                            ''Failed to check usage limit. Please try again.''\<rparr>)))
                  (\<lambda>returned'.
                     case returned' of
                       Some r \<Rightarrow> return_io r
                     | None \<Rightarrow>
                         catch_io
                           (bind_io (generateAIReply e (message req) (tone req))
                              (\<lambda>text. return_io \<lparr>reply = text, error = None\<rparr>))
                           (\<lambda>err. case err of Error msg \<Rightarrow>
                              return_io \<lparr>reply = [], error = Some msg\<rparr>)))"

section \<open>Vocabulary of the properties\<close>

text \<open>
  The write path of one request succeeds: the shop id is resolved and the mutation is
  answered without \<^verbatim>\<open>userErrors\<close>. The read path succeeds: the metafield query returns.
\<close>

definition writes_succeed :: "env \<Rightarrow> bool" where
  "writes_succeed e \<longleftrightarrow>
     (case shopIdResponse e of Inr (Some shopId) \<Rightarrow> shopId \<noteq> [] | _ \<Rightarrow> False)
     \<and> metafieldsSetResponse e = Inr []"

definition reads_succeed :: "env \<Rightarrow> bool" where
  "reads_succeed e \<longleftrightarrow> metafieldQueryFails e = None"

definition same_day_ok :: "string \<Rightarrow> env \<Rightarrow> bool" where
  "same_day_ok d e \<longleftrightarrow> today e = d \<and> reads_succeed e \<and> writes_succeed e"

definition fresh_path :: "string \<Rightarrow> metafield_value \<Rightarrow> bool" where
  "fresh_path d m = (case m of Parsed u \<Rightarrow> date u \<noteq> d | _ \<Rightarrow> True)"

definition expected_calls :: "string \<Rightarrow> int \<Rightarrow> call list" where
  "expected_calls d k =
     (if k \<le> DAILY_LIMIT then [MetafieldQuery, ShopIdQuery, MetafieldsSet \<lparr>count = k, date = d\<rparr>]
      else [MetafieldQuery])"

definition expected_result :: "int \<Rightarrow> js_error + UsageDecision" where
  "expected_result k = Inr \<lparr>allowed = (k \<le> DAILY_LIMIT), currentCount = min k DAILY_LIMIT\<rparr>"

definition within_limit :: "metafield_value \<Rightarrow> bool" where
  "within_limit m =
     (case m of NoValue \<Rightarrow> True | Unparseable \<Rightarrow> False
      | Parsed u \<Rightarrow> 1 \<le> count u \<and> count u \<le> DAILY_LIMIT)"

text \<open>
  The day of the last write of a sequence of calls: a call writes when a
  \<^verbatim>\<open>metafieldsSet\<close> mutation is among the external calls it makes.
\<close>

definition is_write :: "call \<Rightarrow> bool" where
  "is_write c = (case c of MetafieldsSet _ \<Rightarrow> True | _ \<Rightarrow> False)"

definition call_writes :: "env \<Rightarrow> world \<Rightarrow> bool" where
  "call_writes e w =
     (filter is_write (drop (length (calls w)) (calls (snd (checkAndIncrementUsage e w)))) \<noteq> [])"

fun last_write_day :: "env list \<Rightarrow> world \<Rightarrow> string option" where
  "last_write_day [] w = None"
| "last_write_day (e # es) w =
     (case last_write_day es (snd (checkAndIncrementUsage e w)) of
        Some d \<Rightarrow> Some d
      | None \<Rightarrow> if call_writes e w then Some (today e) else None)"

definition example_env :: env where
  "example_env =
     \<lparr>today = ''2026-11-03'', now = 1000 * ms_per_day,
      localTZA_utc = (\<lambda>t. 0), localTZA_local = (\<lambda>t. 0),
      subscriptionsResponse = Inr [\<lparr>name = ''pro_monthly'', status = ''ACTIVE'',
                                   createdAt = CreatedMissing, trialDays = None\<rparr>],
      createResponse = Inr \<lparr>userErrors = [], confirmationUrl = Some ''https://shop/confirm''\<rparr>,
      metafieldQueryFails = None, shopIdResponse = Inr (Some ''gid://shopify/Shop/1''),
      metafieldsSetResponse = Inr [], generateResponse = Inr ''Thank you''\<rparr>"

definition example_world :: world where
  "example_world = \<lparr>metafield = NoValue, calls = []\<rparr>"

definition next_day_env :: env where
  "next_day_env = example_env\<lparr>today := ''2026-11-04''\<rparr>"

text \<open>
  Counting stubs on the record of external calls: the invocations of \<^verbatim>\<open>generateAIReply\<close>
  and the metafield reads, of which \<^verbatim>\<open>checkAndIncrementUsage\<close> makes exactly one.
\<close>

definition is_generation :: "call \<Rightarrow> bool" where
  "is_generation c = (case c of GenerateReply _ _ \<Rightarrow> True | _ \<Rightarrow> False)"

definition generation_calls :: "world \<Rightarrow> nat" where
  "generation_calls w = length (filter is_generation (calls w))"

definition counter_calls :: "world \<Rightarrow> nat" where
  "counter_calls w = length (filter (\<lambda>c. c = MetafieldQuery) (calls w))"

text \<open>
  The two gates of \<open>action\<close>: the resolver returns (does not throw) a state without access;
  the counter returns (does not throw) an allowed decision. The write of a call is not
  attempted when the stored record is today's and already at the limit.
\<close>

definition resolver_denies :: "env \<Rightarrow> world \<Rightarrow> bool" where
  "resolver_denies e w =
     (case fst (checkActiveSubscription e w) of Inr st \<Rightarrow> \<not> hasAccess st | Inl _ \<Rightarrow> False)"

definition counter_allows :: "env \<Rightarrow> world \<Rightarrow> bool" where
  "counter_allows e w =
     (case fst (checkAndIncrementUsage e w) of Inr d \<Rightarrow> allowed d | Inl _ \<Rightarrow> False)"

definition at_limit :: "env \<Rightarrow> world \<Rightarrow> bool" where
  "at_limit e w =
     (case metafield w of Parsed u \<Rightarrow> date u = today e \<and> count u \<ge> DAILY_LIMIT | _ \<Rightarrow> False)"

text \<open>Concrete requests, subscriptions, environments and stores.\<close>

definition example_request :: request where
  "example_request = \<lparr>origin = ''https://shop'', message = Some ''Great product'', tone = Some ''Friendly''\<rparr>"

definition active_subscription :: subscription where
  "active_subscription =
     \<lparr>name = ''pro_monthly'', status = ''ACTIVE'', createdAt = CreatedMissing, trialDays = None\<rparr>"

definition declined_subscription :: subscription where
  "declined_subscription =
     \<lparr>name = ''pro_monthly'', status = ''DECLINED'', createdAt = CreatedMissing, trialDays = None\<rparr>"

definition trial_subscription :: "created_at \<Rightarrow> int option \<Rightarrow> subscription" where
  "trial_subscription created days =
     \<lparr>name = ''pro_monthly'', status = ''ACCEPTED'', createdAt = created, trialDays = days\<rparr>"

definition other_subscription :: subscription where
  "other_subscription =
     \<lparr>name = ''AI Review Reply Generator - Starter'', status = ''ACTIVE'',
      createdAt = CreatedMissing, trialDays = Some 7\<rparr>"

definition subscribed_env :: "subscription list \<Rightarrow> env" where
  "subscribed_env subs = example_env\<lparr>subscriptionsResponse := Inr subs\<rparr>"



text \<open>
  A host two hours ahead of UTC whose clocks go back one hour at the beginning of day
  1002, holding a subscription accepted at the beginning of day 995; and the same host
  holding one accepted at the beginning of day 980, whose trial ended before the change.
\<close>

definition fall_back_env :: "subscription list \<Rightarrow> env" where
  "fall_back_env subs =
     example_env
       \<lparr>localTZA_utc := (\<lambda>t. if t < 1002 * ms_per_day then 7200000 else 3600000),
        localTZA_local := (\<lambda>t. if t < 1002 * ms_per_day + 7200000 then 7200000 else 3600000),
        subscriptionsResponse := Inr subs\<rparr>"

definition read_failure_env :: env where
  "read_failure_env = example_env\<lparr>metafieldQueryFails := Some (Error ''fetch failed'')\<rparr>"

definition write_failure_env :: env where
  "write_failure_env = example_env\<lparr>metafieldsSetResponse := Inr [''Value is invalid'']\<rparr>"

definition declined_env :: env where
  "declined_env = example_env\<lparr>subscriptionsResponse := Inr [declined_subscription]\<rparr>"

definition billing_down_env :: env where
  "billing_down_env = example_env\<lparr>subscriptionsResponse := Inl (Error ''fetch failed'')\<rparr>"

definition full_world :: world where
  "full_world = \<lparr>metafield = Parsed \<lparr>count = 100, date = ''2026-11-03''\<rparr>, calls = []\<rparr>"

section \<open>Single calls of the usage counter\<close>

lemmas io_defs = return_io_def throw_io_def bind_io_def catch_io_def external_def

lemma saveDailyUsage_ok:
  "writes_succeed e \<Longrightarrow>
   saveDailyUsage e u w =
     (Inr (), w\<lparr>metafield := Parsed u, calls := calls w @ [ShopIdQuery, MetafieldsSet u]\<rparr>)"
  by (auto simp: writes_succeed_def saveDailyUsage_def getShopId_def io_defs
           split: sum.splits option.splits)

lemma getDailyUsage_ok:
  "reads_succeed e \<Longrightarrow>
   getDailyUsage e w =
     (Inr (case metafield w of Parsed u \<Rightarrow> Some u | _ \<Rightarrow> None), w\<lparr>calls := calls w @ [MetafieldQuery]\<rparr>)"
  by (auto simp: reads_succeed_def getDailyUsage_def io_defs split: metafield_value.splits)

lemma getDailyUsage_throws:
  "metafieldQueryFails e = Some err \<Longrightarrow>
   getDailyUsage e w = (Inl err, w\<lparr>calls := calls w @ [MetafieldQuery]\<rparr>)"
  by (simp add: getDailyUsage_def io_defs)

lemma check_throws:
  "metafieldQueryFails e = Some err \<Longrightarrow>
   checkAndIncrementUsage e w = (Inl err, w\<lparr>calls := calls w @ [MetafieldQuery]\<rparr>)"
  by (simp add: checkAndIncrementUsage_def Let_def getDailyUsage_throws bind_io_def)

lemma check_fresh:
  assumes "reads_succeed e" "writes_succeed e" "fresh_path (today e) (metafield w)"
  shows "checkAndIncrementUsage e w =
     (Inr \<lparr>allowed = True, currentCount = 1\<rparr>,
      w\<lparr>metafield := Parsed \<lparr>count = 1, date = today e\<rparr>,
        calls := calls w @ [MetafieldQuery, ShopIdQuery, MetafieldsSet \<lparr>count = 1, date = today e\<rparr>]\<rparr>)"
  using assms
  by (auto simp: Let_def checkAndIncrementUsage_def getTodayDateString_def getDailyUsage_ok saveDailyUsage_ok
      fresh_path_def bind_io_def return_io_def split: metafield_value.splits)

lemma check_increment:
  assumes "reads_succeed e" "writes_succeed e" "metafield w = Parsed \<lparr>count = c, date = today e\<rparr>" "c < DAILY_LIMIT"
  shows "checkAndIncrementUsage e w =
     (Inr \<lparr>allowed = True, currentCount = c + 1\<rparr>,
      w\<lparr>metafield := Parsed \<lparr>count = c + 1, date = today e\<rparr>,
        calls := calls w @ [MetafieldQuery, ShopIdQuery, MetafieldsSet \<lparr>count = c + 1, date = today e\<rparr>]\<rparr>)"
  using assms
  by (auto simp: Let_def checkAndIncrementUsage_def getTodayDateString_def getDailyUsage_ok saveDailyUsage_ok
      bind_io_def return_io_def split: metafield_value.splits)

lemma check_denied:
  assumes "reads_succeed e" "metafield w = Parsed \<lparr>count = c, date = today e\<rparr>" "c \<ge> DAILY_LIMIT"
  shows "checkAndIncrementUsage e w =
     (Inr \<lparr>allowed = False, currentCount = c\<rparr>, w\<lparr>calls := calls w @ [MetafieldQuery]\<rparr>)"
  using assms
  by (auto simp: Let_def checkAndIncrementUsage_def getTodayDateString_def getDailyUsage_ok
      bind_io_def return_io_def split: metafield_value.splits)

lemma map_upt_shift:
  "map f [Suc 0..<Suc (Suc n)] = f (Suc 0) # map (\<lambda>i. f (Suc i)) [Suc 0..<Suc n]"
proof -
  have "[Suc 0..<Suc (Suc n)] = Suc 0 # map Suc [Suc 0..<Suc n]"
    by (simp add: map_Suc_upt upt_conv_Cons del: upt_Suc)
  then show ?thesis by (simp add: o_def del: upt_Suc)
qed

lemma map_upt_stable:
  assumes "\<And>i. Suc 0 \<le> i \<Longrightarrow> f (Suc i) = f i"
  shows "map f [Suc 0..<Suc (Suc n)] = f (Suc 0) # map f [Suc 0..<Suc n]"
  unfolding map_upt_shift using assms by auto

lemma seq_from_count:
  assumes "\<forall>e\<in>set es. same_day_ok d e"
    and "(c = 0 \<and> metafield w = NoValue) \<or> metafield w = Parsed \<lparr>count = c, date = d\<rparr>"
    and "c \<le> DAILY_LIMIT"
  shows "sequential_calls es w =
    (map (\<lambda>i. expected_result (c + int i)) [Suc 0..<Suc (length es)],
     w\<lparr>metafield := (if es = [] then metafield w
                     else Parsed \<lparr>count = min (c + int (length es)) DAILY_LIMIT, date = d\<rparr>),
       calls := calls w @ concat (map (\<lambda>i. expected_calls d (c + int i)) [Suc 0..<Suc (length es)])\<rparr>)"
  using assms
proof (induction es arbitrary: w c)
  case Nil
  then show ?case by simp
next
  case (Cons e es)
  have ok: "today e = d" "reads_succeed e" "writes_succeed e"
    using Cons.prems(1) by (simp_all add: same_day_ok_def)
  have rest: "\<forall>e\<in>set es. same_day_ok d e" using Cons.prems(1) by simp
  show ?case
  proof (cases "c < DAILY_LIMIT")
    case True
    define u where "u = \<lparr>count = c + 1, date = d\<rparr>"
    define w' where "w' = w\<lparr>metafield := Parsed u, calls := calls w @ [MetafieldQuery, ShopIdQuery, MetafieldsSet u]\<rparr>"
    have step: "checkAndIncrementUsage e w = (expected_result (c + 1), w')"
    proof (cases "metafield w = NoValue")
      case True
      then have "c = 0" using Cons.prems(2) by auto
      moreover have "fresh_path (today e) (metafield w)" using True by (simp add: fresh_path_def)
      ultimately show ?thesis
        using check_fresh[OF ok(2) ok(3), of w] ok(1)
        by (simp add: w'_def u_def expected_result_def DAILY_LIMIT_def)
    next
      case False
      then have "metafield w = Parsed \<lparr>count = c, date = today e\<rparr>"
        using Cons.prems(2) ok(1) by auto
      from check_increment[OF ok(2) ok(3) this True] show ?thesis
        using ok(1) True by (simp add: w'_def u_def expected_result_def)
    qed
    have m': "(c + 1 = 0 \<and> metafield w' = NoValue) \<or> metafield w' = Parsed \<lparr>count = c + 1, date = d\<rparr>"
      by (simp add: w'_def u_def)
    have le': "c + 1 \<le> DAILY_LIMIT" using True by simp
    note IH = Cons.IH[OF rest m' le']
    have unroll: "sequential_calls (e # es) w =
            (expected_result (c + 1) # fst (sequential_calls es w'), snd (sequential_calls es w'))"
      by (simp add: step split: prod.splits)
    have first: "expected_calls d (c + 1) = [MetafieldQuery, ShopIdQuery, MetafieldsSet u]"
      using True by (simp add: expected_calls_def u_def)
    show ?thesis
      unfolding unroll IH
      using True
      by (simp add: map_upt_shift first w'_def u_def add.assoc add.commute[of 1] del: upt_Suc)
  next
    case False
    then have c: "c = DAILY_LIMIT" using Cons.prems(3) by simp
    then have m: "metafield w = Parsed \<lparr>count = c, date = today e\<rparr>"
      using Cons.prems(2) ok(1) by (auto simp: DAILY_LIMIT_def)
    define w' where "w' = w\<lparr>calls := calls w @ [MetafieldQuery]\<rparr>"
    have step: "checkAndIncrementUsage e w = (expected_result (c + 1), w')"
      using check_denied[OF ok(2) m] c by (simp add: w'_def expected_result_def)
    have m': "(c = 0 \<and> metafield w' = NoValue) \<or> metafield w' = Parsed \<lparr>count = c, date = d\<rparr>"
      using m ok(1) by (simp add: w'_def)
    note IH = Cons.IH[OF rest m' Cons.prems(3)]
    have unroll: "sequential_calls (e # es) w =
            (expected_result (c + 1) # fst (sequential_calls es w'), snd (sequential_calls es w'))"
      by (simp add: step split: prod.splits)
    have results: "map (\<lambda>i. expected_result (c + int i)) [Suc 0..<Suc (length (e # es))] =
        expected_result (c + 1) # map (\<lambda>i. expected_result (c + int i)) [Suc 0..<Suc (length es)]"
      using map_upt_stable[of "\<lambda>i. expected_result (c + int i)" "length es"] c
      by (simp add: expected_result_def del: upt_Suc)
    have log: "map (\<lambda>i. expected_calls d (c + int i)) [Suc 0..<Suc (length (e # es))] =
        [MetafieldQuery] # map (\<lambda>i. expected_calls d (c + int i)) [Suc 0..<Suc (length es)]"
      using map_upt_stable[of "\<lambda>i. expected_calls d (c + int i)" "length es"] c
      by (simp add: expected_calls_def del: upt_Suc)
    have eqw: "w\<lparr>metafield := Parsed \<lparr>count = c, date = d\<rparr>, calls := cs\<rparr> = w\<lparr>calls := cs\<rparr>" for cs
      using m ok(1) by (cases w) simp
    show ?thesis
      unfolding unroll IH results log
      using c ok(1) m by (cases w) (simp add: w'_def min_def del: upt_Suc)
  qed
qed

section \<open>The usage counter resets on an absent, malformed or stale value\<close>

text \<open>
  Claim C5. Whenever the stored value is absent, fails to parse, or carries a date other
  than today, \<^verbatim>\<open>checkAndIncrementUsage\<close> (its read returning and its write succeeding) sends
  exactly one write, of the record with count 1 and today's date, leaves that record in
  the store and returns allowed with count 1, whatever the count stored before. An
  unparseable value is read as "no usage", not as an error.
\<close>

theorem fresh_record_when_absent_malformed_or_stale:
  assumes "reads_succeed e" and "writes_succeed e"
    and "metafield w = NoValue \<or> metafield w = Unparseable
         \<or> (\<exists>u. metafield w = Parsed u \<and> date u \<noteq> today e)"
  shows "checkAndIncrementUsage e w =
     (Inr \<lparr>allowed = True, currentCount = 1\<rparr>,
      w\<lparr>metafield := Parsed \<lparr>count = 1, date = today e\<rparr>,
        calls := calls w @ [MetafieldQuery, ShopIdQuery, MetafieldsSet \<lparr>count = 1, date = today e\<rparr>]\<rparr>)
     \<and> (metafield w = Unparseable \<longrightarrow> fst (getDailyUsage e w) = Inr None)"
proof -
  have "fresh_path (today e) (metafield w)"
    using assms(3) by (auto simp: fresh_path_def)
  from check_fresh[OF assms(1,2) this] show ?thesis
    by (simp add: getDailyUsage_ok[OF assms(1)])
qed

theorem fresh_record_when_absent_malformed_or_stale_witness:
  "checkAndIncrementUsage example_env
     \<lparr>metafield = Parsed \<lparr>count = 250, date = ''2026-11-02''\<rparr>, calls = []\<rparr> =
     (Inr \<lparr>allowed = True, currentCount = 1\<rparr>,
      \<lparr>metafield = Parsed \<lparr>count = 1, date = ''2026-11-03''\<rparr>,
       calls = [MetafieldQuery, ShopIdQuery, MetafieldsSet \<lparr>count = 1, date = ''2026-11-03''\<rparr>]\<rparr>)
   \<and> fst (checkAndIncrementUsage example_env \<lparr>metafield = Unparseable, calls = []\<rparr>) =
       Inr \<lparr>allowed = True, currentCount = 1\<rparr>"
  using fresh_record_when_absent_malformed_or_stale
          [of example_env "\<lparr>metafield = Parsed \<lparr>count = 250, date = ''2026-11-02''\<rparr>, calls = []\<rparr>"]
        fresh_record_when_absent_malformed_or_stale
          [of example_env "\<lparr>metafield = Unparseable, calls = []\<rparr>"]
  by (simp add: example_env_def reads_succeed_def writes_succeed_def)

section \<open>Sequential calls within one day\<close>

lemma peek_after_first:
  assumes "reads_succeed e'" "metafield w = Parsed \<lparr>count = c, date = today e'\<rparr>"
  shows "fst (getCurrentUsageCount e' w) = Inr c"
  using assms
  by (simp add: getCurrentUsageCount_def Let_def getTodayDateString_def getDailyUsage_ok
      bind_io_def return_io_def)

text \<open>
  Claim C1. Starting from a shop with no stored usage, \<open>N\<close> sequential calls of
  \<^verbatim>\<open>checkAndIncrementUsage\<close> on one day \<open>d\<close>, with every read returning and every write
  succeeding, return for the \<open>i\<close>-th call (\<open>i = 1..N\<close>) the count \<open>i\<close> and allowed while
  \<open>i \<le> 100\<close>, and denied with count 100 for every later call. An allowed call sends one
  write of the count it returns; a denied call only reads. After at least one call the
  store holds the count \<open>min N 100\<close> for the day \<open>d\<close>, and after the first call
  \<^verbatim>\<open>getCurrentUsageCount\<close> returns 1.
\<close>

theorem sequential_calls_count_to_limit:
  assumes "metafield w = NoValue"
    and "\<forall>e\<in>set es. today e = d \<and> reads_succeed e \<and> writes_succeed e"
  shows "fst (sequential_calls es w) =
           map (\<lambda>i. Inr \<lparr>allowed = (int i \<le> DAILY_LIMIT), currentCount = min (int i) DAILY_LIMIT\<rparr>)
             [1..<Suc (length es)]
       \<and> calls (snd (sequential_calls es w)) =
           calls w @ concat (map (\<lambda>i. if int i \<le> DAILY_LIMIT
                                       then [MetafieldQuery, ShopIdQuery,
                                             MetafieldsSet \<lparr>count = int i, date = d\<rparr>]
                                       else [MetafieldQuery]) [1..<Suc (length es)])
       \<and> (es \<noteq> [] \<longrightarrow>
            metafield (snd (sequential_calls es w)) =
              Parsed \<lparr>count = min (int (length es)) DAILY_LIMIT, date = d\<rparr>)
       \<and> (es \<noteq> [] \<longrightarrow>
            (\<forall>e'. today e' = d \<and> reads_succeed e' \<longrightarrow>
               fst (getCurrentUsageCount e' (snd (checkAndIncrementUsage (hd es) w))) = Inr 1))
       \<and> DAILY_LIMIT = 100"
proof -
  have ok: "\<forall>e\<in>set es. same_day_ok d e"
    using assms(2) by (simp add: same_day_ok_def)
  have start: "(0 = (0::int) \<and> metafield w = NoValue) \<or> metafield w = Parsed \<lparr>count = 0, date = d\<rparr>"
    using assms(1) by simp
  have seq: "sequential_calls es w =
    (map (\<lambda>i. expected_result (0 + int i)) [Suc 0..<Suc (length es)],
     w\<lparr>metafield := (if es = [] then metafield w
                     else Parsed \<lparr>count = min (0 + int (length es)) DAILY_LIMIT, date = d\<rparr>),
       calls := calls w @ concat (map (\<lambda>i. expected_calls d (0 + int i)) [Suc 0..<Suc (length es)])\<rparr>)"
    by (rule seq_from_count[OF ok start]) (simp add: DAILY_LIMIT_def)
  have peek: "fst (getCurrentUsageCount e' (snd (checkAndIncrementUsage (hd es) w))) = Inr 1"
    if "es \<noteq> []" "today e' = d" "reads_succeed e'" for e'
  proof -
    have h: "hd es \<in> set es" using that(1) by simp
    then have e: "today (hd es) = d" "reads_succeed (hd es)" "writes_succeed (hd es)"
      using assms(2) by auto
    have "fresh_path (today (hd es)) (metafield w)"
      using assms(1) by (simp add: fresh_path_def)
    from check_fresh[OF e(2,3) this] show ?thesis
      using that e(1) by (simp add: peek_after_first)
  qed
  show ?thesis
    using peek by (simp add: seq expected_result_def expected_calls_def DAILY_LIMIT_def del: upt_Suc)
qed

theorem sequential_calls_count_to_limit_witness:
  "fst (sequential_calls (replicate 101 example_env) example_world) ! 0 =
      Inr \<lparr>allowed = True, currentCount = 1\<rparr>
   \<and> fst (sequential_calls (replicate 101 example_env) example_world) ! 99 =
      Inr \<lparr>allowed = True, currentCount = 100\<rparr>
   \<and> fst (sequential_calls (replicate 101 example_env) example_world) ! 100 =
      Inr \<lparr>allowed = False, currentCount = 100\<rparr>
   \<and> metafield (snd (sequential_calls (replicate 101 example_env) example_world)) =
      Parsed \<lparr>count = 100, date = ''2026-11-03''\<rparr>"
  using sequential_calls_count_to_limit [of example_world "replicate 101 example_env" "''2026-11-03''"]
  by (simp add: example_env_def example_world_def reads_succeed_def writes_succeed_def
      DAILY_LIMIT_def nth_append del: upt_Suc)

section \<open>The stored record stays within the limit\<close>

lemma check_step:
  assumes "writes_succeed e"
  shows "snd (checkAndIncrementUsage e w) =
    (if metafieldQueryFails e = None \<and>
        (case metafield w of Parsed u \<Rightarrow> date u = today e \<longrightarrow> count u < DAILY_LIMIT | _ \<Rightarrow> True)
     then (let k = (case metafield w of
                      Parsed u \<Rightarrow> if date u = today e then count u + 1 else 1 | _ \<Rightarrow> 1)
           in w\<lparr>metafield := Parsed \<lparr>count = k, date = today e\<rparr>,
                calls := calls w @ [MetafieldQuery, ShopIdQuery,
                                    MetafieldsSet \<lparr>count = k, date = today e\<rparr>]\<rparr>)
     else w\<lparr>calls := calls w @ [MetafieldQuery]\<rparr>)"
proof (cases "metafieldQueryFails e")
  case (Some err)
  then show ?thesis by (simp add: check_throws)
next
  case None
  then have r: "reads_succeed e" by (simp add: reads_succeed_def)
  show ?thesis
  proof (cases "fresh_path (today e) (metafield w)")
    case True
    from check_fresh[OF r assms True] True None show ?thesis
      by (auto simp: fresh_path_def Let_def split: metafield_value.splits)
  next
    case False
    then obtain u where u: "metafield w = Parsed u" "date u = today e"
      by (auto simp: fresh_path_def split: metafield_value.splits)
    then have m: "metafield w = Parsed \<lparr>count = count u, date = today e\<rparr>" by simp
    show ?thesis
    proof (cases "count u < DAILY_LIMIT")
      case True
      from check_increment[OF r assms m True] True None u show ?thesis by (simp add: Let_def)
    next
      case False
      then have "count u \<ge> DAILY_LIMIT" by simp
      from check_denied[OF r m this] False None u show ?thesis by simp
    qed
  qed
qed

lemma step_within_limit:
  assumes "writes_succeed e" "within_limit (metafield w)"
  shows "within_limit (metafield (snd (checkAndIncrementUsage e w)))"
  using assms(2) unfolding check_step[OF assms(1)]
  by (auto simp: within_limit_def Let_def DAILY_LIMIT_def split: metafield_value.splits)

lemma step_writes:
  assumes "writes_succeed e" "within_limit (metafield w)"
    and "MetafieldsSet u \<in> set (calls (snd (checkAndIncrementUsage e w)))"
  shows "MetafieldsSet u \<in> set (calls w) \<or> (1 \<le> count u \<and> count u \<le> DAILY_LIMIT)"
  using assms(2,3) unfolding check_step[OF assms(1)]
  by (auto simp: within_limit_def Let_def DAILY_LIMIT_def split: metafield_value.splits if_splits)

lemma seq_invariant:
  assumes "\<forall>e\<in>set es. writes_succeed e" "within_limit (metafield w)"
  shows "within_limit (metafield (snd (sequential_calls es w)))
     \<and> (\<forall>u. MetafieldsSet u \<in> set (calls (snd (sequential_calls es w))) \<longrightarrow>
            MetafieldsSet u \<in> set (calls w) \<or> (1 \<le> count u \<and> count u \<le> DAILY_LIMIT))"
  using assms
proof (induction es arbitrary: w)
  case Nil
  then show ?case by simp
next
  case (Cons e es)
  define w' where "w' = snd (checkAndIncrementUsage e w)"
  have e: "writes_succeed e" and rest: "\<forall>e\<in>set es. writes_succeed e"
    using Cons.prems(1) by simp_all
  have inv': "within_limit (metafield w')"
    unfolding w'_def by (rule step_within_limit[OF e Cons.prems(2)])
  have unroll: "snd (sequential_calls (e # es) w) = snd (sequential_calls es w')"
    by (simp add: w'_def split: prod.splits)
  from Cons.IH[OF rest inv'] step_writes[OF e Cons.prems(2)] show ?case
    unfolding unroll w'_def by blast
qed

lemma step_date:
  assumes "writes_succeed e"
  shows "if call_writes e w
         then \<exists>k. metafield (snd (checkAndIncrementUsage e w)) = Parsed \<lparr>count = k, date = today e\<rparr>
         else metafield (snd (checkAndIncrementUsage e w)) = metafield w"
  unfolding call_writes_def check_step[OF assms]
  by (simp add: Let_def is_write_def)

lemma seq_date:
  assumes "\<forall>e\<in>set es. writes_succeed e"
  shows "case last_write_day es w of
           None \<Rightarrow> metafield (snd (sequential_calls es w)) = metafield w
         | Some d \<Rightarrow> \<exists>k. metafield (snd (sequential_calls es w)) = Parsed \<lparr>count = k, date = d\<rparr>"
  using assms
proof (induction es arbitrary: w)
  case Nil
  then show ?case by simp
next
  case (Cons e es)
  define w' where "w' = snd (checkAndIncrementUsage e w)"
  have e: "writes_succeed e" and rest: "\<forall>e\<in>set es. writes_succeed e"
    using Cons.prems by simp_all
  have unroll: "snd (sequential_calls (e # es) w) = snd (sequential_calls es w')"
    by (simp add: w'_def split: prod.splits)
  note IH = Cons.IH[OF rest, of w']
  note step = step_date[OF e, of w, folded w'_def]
  show ?case
  proof (cases "last_write_day es w'")
    case (Some d)
    then show ?thesis using IH unfolding unroll by (simp add: w'_def)
  next
    case None
    then have same: "metafield (snd (sequential_calls es w')) = metafield w'"
      using IH by simp
    show ?thesis
      using None step unfolding unroll same
      by (simp add: w'_def[symmetric] split: if_splits)
  qed
qed

text \<open>
  Claim C10. Starting from an absent record, after any sequence of sequential calls of
  \<^verbatim>\<open>checkAndIncrementUsage\<close> whose writes succeed (the clock may move from call to call,
  and reads may fail), the metafield is absent or holds a record with
  \<open>1 \<le> count \<le> 100\<close>; the date of a stored record is the day, as the clock gave it to
  the call, of the last call of the sequence that wrote; and every write sent during the
  sequence carries a count between 1 and 100.
\<close>

theorem stored_usage_stays_within_limit:
  assumes "metafield w = NoValue" and "\<forall>e\<in>set es. writes_succeed e"
  shows "(case metafield (snd (sequential_calls es w)) of
            NoValue \<Rightarrow> True
          | Unparseable \<Rightarrow> False
          | Parsed u \<Rightarrow> 1 \<le> count u \<and> count u \<le> DAILY_LIMIT
                        \<and> last_write_day es w = Some (date u))
     \<and> (\<forall>u. MetafieldsSet u \<in> set (calls (snd (sequential_calls es w))) \<longrightarrow>
            MetafieldsSet u \<in> set (calls w) \<or> (1 \<le> count u \<and> count u \<le> DAILY_LIMIT))
     \<and> DAILY_LIMIT = 100"
proof -
  have start: "within_limit (metafield w)"
    using assms(1) by (simp add: within_limit_def)
  note inv = seq_invariant[OF assms(2) start]
  have day: "last_write_day es w = Some (date u)"
    if "metafield (snd (sequential_calls es w)) = Parsed u" for u
    using seq_date[OF assms(2), of w] that assms(1)
    by (cases "last_write_day es w") auto
  have c1: "case metafield (snd (sequential_calls es w)) of
            NoValue \<Rightarrow> True
          | Unparseable \<Rightarrow> False
          | Parsed u \<Rightarrow> 1 \<le> count u \<and> count u \<le> DAILY_LIMIT
                        \<and> last_write_day es w = Some (date u)"
    using conjunct1[OF inv] day
    by (cases "metafield (snd (sequential_calls es w))") (simp_all add: within_limit_def)
  show ?thesis
    using c1 conjunct2[OF inv] by (simp add: DAILY_LIMIT_def)
qed

theorem stored_usage_stays_within_limit_witness:
  "metafield (snd (sequential_calls [example_env, example_env, next_day_env] example_world)) =
     Parsed \<lparr>count = 1, date = ''2026-11-04''\<rparr>
   \<and> last_write_day [example_env, example_env, next_day_env] example_world = Some ''2026-11-04''"
proof -
  have absent: "metafield example_world = NoValue"
    by (simp add: example_world_def)
  have writes: "\<forall>e\<in>set [example_env, example_env, next_day_env]. writes_succeed e"
    by (simp add: example_env_def next_day_env_def writes_succeed_def)
  have stored: "metafield (snd (sequential_calls [example_env, example_env, next_day_env] example_world)) =
     Parsed \<lparr>count = 1, date = ''2026-11-04''\<rparr>"
    by (simp add: example_env_def example_world_def next_day_env_def
        checkAndIncrementUsage_def getDailyUsage_def saveDailyUsage_def getShopId_def
        getTodayDateString_def Let_def io_defs DAILY_LIMIT_def)
  show ?thesis
    using stored_usage_stays_within_limit [OF absent writes] stored by simp
qed

section \<open>Subscription resolver\<close>

lemma checkActiveSubscription_returns:
  assumes "subscriptionsResponse e = Inr subs"
  shows "checkActiveSubscription e w =
     (Inr (case find (\<lambda>sub. name sub = ''pro_monthly'') subs of
             None \<Rightarrow> \<lparr>hasAccess = False, isTrial = False, daysRemaining = None\<rparr>
           | Some sub \<Rightarrow> classify e sub),
      w\<lparr>calls := calls w @ [SubscriptionsQuery]\<rparr>)"
  using assms by (simp add: checkActiveSubscription_def io_defs split: option.splits)

lemmas billing_eval =
  subscribed_env_def fall_back_env_def example_env_def example_world_def trial_subscription_def
  other_subscription_def active_subscription_def declined_subscription_def ms_per_day_def

lemmas date_defs =
  add_days_def local_after_def time_clip_def MAX_TIME_def ceil_div_def





text \<open>
  Claim C9. When the selected subscription has status ACCEPTED or TRIAL and its
  \<open>createdAt\<close> is missing, the resolver grants access on trial and gives no number of
  days remaining.
\<close>

theorem trial_without_createdAt_is_granted:
  assumes "subscriptionsResponse e = Inr subs"
    and "find (\<lambda>sub. name sub = ''pro_monthly'') subs = Some s"
    and "status s = ''ACCEPTED'' \<or> status s = ''TRIAL''"
    and "createdAt s = CreatedMissing"
  shows "fst (checkActiveSubscription e w) =
           Inr \<lparr>hasAccess = True, isTrial = True, daysRemaining = None\<rparr>"
  unfolding checkActiveSubscription_returns[OF assms(1)]
  using assms(2-4) by (auto simp: classify_def)

theorem trial_without_createdAt_is_granted_witness:
  "fst (checkActiveSubscription
          (subscribed_env [other_subscription, trial_subscription CreatedMissing (Some 14)])
          example_world) =
     Inr \<lparr>hasAccess = True, isTrial = True, daysRemaining = None\<rparr>"
  using trial_without_createdAt_is_granted
          [of "subscribed_env [other_subscription, trial_subscription CreatedMissing (Some 14)]"
              "[other_subscription, trial_subscription CreatedMissing (Some 14)]"
              "trial_subscription CreatedMissing (Some 14)" example_world]
  by (simp add: billing_eval)

subsection \<open>The trial window\<close>

text \<open>
  \<open>ceil_div x d\<close> is the ceiling of \<open>x / d\<close>: the least \<open>q\<close> with \<open>x \<le> q * d\<close>. For a
  provider value of \<open>trialDays\<close> other than 0 the window is as the specification says:
  the trial ends \<open>trialDays\<close> calendar days (14 when the field is absent) after
  \<open>createdAt\<close>, access is granted exactly while \<open>now \<le> trialEnd\<close>, with the ceiling of the
  remaining time in days, which is 0 only at the instant \<open>now = trialEnd\<close>. Without a net
  clock change in the window the calendar days are days of 24 hours.
\<close>

lemma ceil_div_is_ceiling:
  assumes "0 < d"
  shows "(ceil_div x d - 1) * d < x \<and> x \<le> ceil_div x d * d"
proof -
  define q where "q = (- x) div d"
  define r where "r = (- x) mod d"
  have x: "- x = q * d + r" by (simp add: q_def r_def)
  have r: "0 \<le> r" "r < d" using assms by (simp_all add: r_def)
  have "ceil_div x d = - q" by (simp add: ceil_div_def q_def)
  moreover have "(- q - 1) * d < x" using x r by (simp add: algebra_simps)
  moreover have "x \<le> - q * d" using x r by (simp add: algebra_simps)
  ultimately show ?thesis by simp
qed

lemma days_remaining_zero_only_at_trial_end:
  assumes "0 \<le> x"
  shows "ceil_div x ms_per_day = 0 \<longleftrightarrow> x = 0"
  using ceil_div_is_ceiling[of ms_per_day x] assms
  by (auto simp: ms_per_day_def)

lemma trial_window:
  assumes "subscriptionsResponse e = Inr subs"
    and "find (\<lambda>sub. name sub = ''pro_monthly'') subs = Some s"
    and "status s = ''ACCEPTED'' \<or> status s = ''TRIAL''"
    and "createdAt s = CreatedAt created"
    and "trialDays s \<noteq> Some 0"
  shows "fst (checkActiveSubscription e w) =
      (case add_days e created (case trialDays s of None \<Rightarrow> 14 | Some n \<Rightarrow> n) of
         None \<Rightarrow> Inr \<lparr>hasAccess = False, isTrial = False, daysRemaining = None\<rparr>
       | Some trialEnd \<Rightarrow>
           if now e \<le> trialEnd
           then Inr \<lparr>hasAccess = True, isTrial = True,
                     daysRemaining = Some (ceil_div (trialEnd - now e) ms_per_day)\<rparr>
           else Inr \<lparr>hasAccess = False, isTrial = False, daysRemaining = None\<rparr>)"
  unfolding checkActiveSubscription_returns[OF assms(1)]
  using assms(2-5) by (auto simp: classify_def Let_def split: option.splits)

text \<open>
  Claim C4 says that a value of \<open>trialDays\<close> supplied by the provider is used as given and
  that 14 is used exactly when none is supplied. The source computes
  \<^verbatim>\<open>subscription.trialDays || 14\<close>, which also replaces a supplied 0 by 14: a
  subscription accepted one day ago with 0 trial days, whose trial by the claim ended at
  its creation, is granted access on trial with 13 days remaining.
\<close>

theorem zero_trial_days_replaced_by_default:
  "add_days example_env (999 * ms_per_day) 0 = Some (999 * ms_per_day)
   \<and> 999 * ms_per_day < now example_env
   \<and> fst (checkActiveSubscription
            (subscribed_env [trial_subscription (CreatedAt (999 * ms_per_day)) (Some 0)])
            example_world) =
      Inr \<lparr>hasAccess = True, isTrial = True, daysRemaining = Some 13\<rparr>"
  by (simp add: billing_eval date_defs checkActiveSubscription_def classify_def Let_def io_defs)

section \<open>Subscription initiator\<close>

lemma join_contains:
  "m \<in> set xs \<Longrightarrow> sublist m (join sep xs)"
proof (induction sep xs rule: join.induct)
  case (1 sep)
  then show ?case by simp
next
  case (2 sep x)
  then show ?case by simp
next
  case (3 sep x y ys)
  show ?case
  proof (cases "m = x")
    case True
    then show ?thesis by (simp add: sublist_append_rightI)
  next
    case False
    then have "m \<in> set (y # ys)" using 3(2) by simp
    then have "sublist m (join sep (y # ys))" by (rule 3(1))
    then obtain ps ss where "join sep (y # ys) = ps @ m @ ss"
      by (auto simp: sublist_def)
    then have "join sep (x # y # ys) = (x @ sep @ ps) @ m @ ss" by simp
    then show ?thesis unfolding sublist_def by blast
  qed
qed

text \<open>
  Claim C8. When the provider answers the creation with a non-empty list of errors,
  \<^verbatim>\<open>createSubscription\<close> throws an error whose message is the fixed prefix followed by all
  the messages in order, separated by commas (each message occurs in it); when it answers
  with no errors and no confirmation URL, \<^verbatim>\<open>createSubscription\<close> throws the
  missing-confirmation-URL error, whose message is none of the former; otherwise it returns
  the confirmation URL of the provider.
\<close>

theorem createSubscription_outcomes:
  assumes "createResponse e = Inr p"
  shows "(userErrors p \<noteq> [] \<longrightarrow>
            fst (createSubscription e returnUrl w) =
              Inl (Error (''Failed to create subscription: '' @ join '', '' (userErrors p)))
            \<and> (\<forall>m\<in>set (userErrors p). sublist m (join '', '' (userErrors p))))
       \<and> (userErrors p = [] \<and> falsy (confirmationUrl p) \<longrightarrow>
            fst (createSubscription e returnUrl w) =
              Inl (Error ''No confirmation URL returned from subscription creation'')
            \<and> (\<forall>msgs. ''No confirmation URL returned from subscription creation''
                        \<noteq> ''Failed to create subscription: '' @ join '', '' msgs))
       \<and> (\<forall>url. userErrors p = [] \<and> confirmationUrl p = Some url \<and> url \<noteq> [] \<longrightarrow>
            fst (createSubscription e returnUrl w) = Inr url)"
  using assms
  by (auto simp: createSubscription_def io_defs falsy_def join_contains split: option.splits)

theorem createSubscription_outcomes_witness:
  "fst (createSubscription
          (example_env\<lparr>createResponse :=
             Inr \<lparr>userErrors = [''Shop is frozen'', ''Price is invalid''], confirmationUrl = None\<rparr>\<rparr>)
          ''https://shop/app'' example_world) =
     Inl (Error ''Failed to create subscription: Shop is frozen, Price is invalid'')
   \<and> fst (createSubscription
          (example_env\<lparr>createResponse := Inr \<lparr>userErrors = [], confirmationUrl = None\<rparr>\<rparr>)
          ''https://shop/app'' example_world) =
     Inl (Error ''No confirmation URL returned from subscription creation'')
   \<and> fst (createSubscription example_env ''https://shop/app'' example_world) =
     Inr ''https://shop/confirm''"
  using createSubscription_outcomes
          [of "example_env\<lparr>createResponse :=
                 Inr \<lparr>userErrors = [''Shop is frozen'', ''Price is invalid''], confirmationUrl = None\<rparr>\<rparr>"
              "\<lparr>userErrors = [''Shop is frozen'', ''Price is invalid''], confirmationUrl = None\<rparr>"
              "''https://shop/app''" example_world]
        createSubscription_outcomes
          [of "example_env\<lparr>createResponse := Inr \<lparr>userErrors = [], confirmationUrl = None\<rparr>\<rparr>"
              "\<lparr>userErrors = [], confirmationUrl = None\<rparr>" "''https://shop/app''" example_world]
        createSubscription_outcomes
          [of example_env "\<lparr>userErrors = [], confirmationUrl = Some ''https://shop/confirm''\<rparr>"
              "''https://shop/app''" example_world]
  by (simp add: example_env_def falsy_def)

section \<open>The generation action and the page loader\<close>

lemma checkActiveSubscription_world:
  "snd (checkActiveSubscription e w) = w\<lparr>calls := calls w @ [SubscriptionsQuery]\<rparr>"
  by (simp add: checkActiveSubscription_def io_defs split: sum.splits option.splits)

lemma saveDailyUsage_calls:
  "\<exists>cs. calls (snd (saveDailyUsage e u w)) = calls w @ cs
        \<and> filter is_generation cs = [] \<and> filter (\<lambda>c. c = MetafieldQuery) cs = []"
  by (auto simp: saveDailyUsage_def getShopId_def io_defs is_generation_def
           split: sum.splits option.splits)

lemma getDailyUsage_world:
  "snd (getDailyUsage e w) = w\<lparr>calls := calls w @ [MetafieldQuery]\<rparr>"
  by (auto simp: getDailyUsage_def io_defs split: option.splits metafield_value.splits)

lemma snd_bind_return:
  "snd (bind_io m (\<lambda>_. return_io x) w) = snd (m w)"
  by (simp add: io_defs split: prod.splits sum.splits)

lemma checkAndIncrementUsage_world:
  "snd (checkAndIncrementUsage e w) =
     (let w1 = w\<lparr>calls := calls w @ [MetafieldQuery]\<rparr> in
      case fst (getDailyUsage e w) of
        Inl _ \<Rightarrow> w1
      | Inr None \<Rightarrow> snd (saveDailyUsage e \<lparr>count = 1, date = today e\<rparr> w1)
      | Inr (Some u) \<Rightarrow>
          if date u \<noteq> today e then snd (saveDailyUsage e \<lparr>count = 1, date = today e\<rparr> w1)
          else if count u \<ge> DAILY_LIMIT then w1
          else snd (saveDailyUsage e \<lparr>count = count u + 1, date = today e\<rparr> w1))"
proof -
  obtain r where g: "getDailyUsage e w = (r, w\<lparr>calls := calls w @ [MetafieldQuery]\<rparr>)"
    using getDailyUsage_world[of e w] by (cases "getDailyUsage e w") simp
  show ?thesis
  proof (cases r)
    case (Inl err)
    then show ?thesis
      by (simp add: checkAndIncrementUsage_def Let_def g bind_io_def)
  next
    case (Inr cu)
    have "checkAndIncrementUsage e w =
        (case cu of
           None \<Rightarrow> bind_io (saveDailyUsage e \<lparr>count = 1, date = today e\<rparr>)
                     (\<lambda>_. return_io \<lparr>allowed = True, currentCount = 1\<rparr>)
         | Some u \<Rightarrow>
             if date u \<noteq> today e
             then bind_io (saveDailyUsage e \<lparr>count = 1, date = today e\<rparr>)
                    (\<lambda>_. return_io \<lparr>allowed = True, currentCount = 1\<rparr>)
             else if count u \<ge> DAILY_LIMIT
             then return_io \<lparr>allowed = False, currentCount = count u\<rparr>
             else bind_io (saveDailyUsage e \<lparr>count = count u + 1, date = today e\<rparr>)
                    (\<lambda>_. return_io \<lparr>allowed = True, currentCount = count u + 1\<rparr>))
          (w\<lparr>calls := calls w @ [MetafieldQuery]\<rparr>)"
      using Inr
      by (simp add: checkAndIncrementUsage_def Let_def getTodayDateString_def g
          bind_io_def[of "getDailyUsage e"])
    then show ?thesis
      using Inr by (simp add: g Let_def snd_bind_return return_io_def split: option.splits)
  qed
qed

lemma checkAndIncrementUsage_calls:
  "\<exists>cs. calls (snd (checkAndIncrementUsage e w)) = calls w @ MetafieldQuery # cs
        \<and> filter is_generation cs = [] \<and> filter (\<lambda>c. c = MetafieldQuery) cs = []"
proof -
  have s: "\<exists>cs. calls (snd (saveDailyUsage e u (w\<lparr>calls := calls w @ [MetafieldQuery]\<rparr>))) =
              calls w @ MetafieldQuery # cs
            \<and> filter is_generation cs = [] \<and> filter (\<lambda>c. c = MetafieldQuery) cs = []" for u
    using saveDailyUsage_calls[of e u "w\<lparr>calls := calls w @ [MetafieldQuery]\<rparr>"] by simp
  show ?thesis
    unfolding checkAndIncrementUsage_world Let_def
    using s by (simp split: sum.splits option.splits)
qed

lemma checkAndIncrementUsage_counts:
  "generation_calls (snd (checkAndIncrementUsage e w)) = generation_calls w"
  "counter_calls (snd (checkAndIncrementUsage e w)) = counter_calls w + 1"
  using checkAndIncrementUsage_calls[of e w]
  by (auto simp: generation_calls_def counter_calls_def is_generation_def)

lemma denied_call_leaves_metafield:
  assumes "fst (checkAndIncrementUsage e w) = Inr d" "\<not> allowed d"
  shows "metafield (snd (checkAndIncrementUsage e w)) = metafield w"
proof -
  obtain r where g: "getDailyUsage e w = (r, w\<lparr>calls := calls w @ [MetafieldQuery]\<rparr>)"
    using getDailyUsage_world[of e w] by (cases "getDailyUsage e w") simp
  show ?thesis
    using assms
    by (auto simp: checkAndIncrementUsage_def Let_def g bind_io_def return_io_def
        split: sum.splits option.splits prod.splits if_splits)
qed

lemma action_cases:
  "action e req w =
    (let w1 = w\<lparr>calls := calls w @ [SubscriptionsQuery]\<rparr> in
     if resolver_denies e w
     then (Inr \<lparr>reply = [], error = Some
             ''Subscription required. Your trial has expired or no active subscription found.''\<rparr>, w1)
     else if falsy (message req) \<or> falsy (tone req)
     then (Inr \<lparr>reply = [], error = Some ''Message and tone are required''\<rparr>, w1)
     else (let w2 = snd (checkAndIncrementUsage e w1) in
           case fst (checkAndIncrementUsage e w1) of
             Inl _ \<Rightarrow> (Inr \<lparr>reply = [], error = Some
                         ''Failed to check usage limit. Please try again.''\<rparr>, w2)
           | Inr d \<Rightarrow>
               if \<not> allowed d
               then (Inr \<lparr>reply = [], error = Some ''Daily limit of 100 replies reached''\<rparr>, w2)
               else (Inr (case generateResponse e of
                            Inl err \<Rightarrow> (case err of Error msg \<Rightarrow> \<lparr>reply = [], error = Some msg\<rparr>)
                          | Inr text \<Rightarrow> \<lparr>reply = text, error = None\<rparr>),
                     w2\<lparr>calls := calls w2 @ [GenerateReply (message req) (tone req)]\<rparr>)))"
proof -
  obtain r1 where c1: "checkActiveSubscription e w = (r1, w\<lparr>calls := calls w @ [SubscriptionsQuery]\<rparr>)"
    using checkActiveSubscription_world[of e w] by (cases "checkActiveSubscription e w") simp
  obtain r2 w2 where c2:
    "checkAndIncrementUsage e (w\<lparr>calls := calls w @ [SubscriptionsQuery]\<rparr>) = (r2, w2)"
    by (cases "checkAndIncrementUsage e (w\<lparr>calls := calls w @ [SubscriptionsQuery]\<rparr>)")
  show ?thesis
    by (cases r1; cases r2)
       (auto simp: action_def resolver_denies_def c1 c2 io_defs generateAIReply_def Let_def
             split: sum.splits option.splits js_error.splits)
qed

lemma resolver_denies_log [simp]:
  "resolver_denies e (w\<lparr>calls := cs\<rparr>) = resolver_denies e w"
  by (simp add: resolver_denies_def checkActiveSubscription_def io_defs split: sum.splits option.splits)

lemma action_counter_calls:
  "counter_calls (snd (action e req w)) =
     counter_calls w +
     (if \<not> resolver_denies e w \<and> \<not> falsy (message req) \<and> \<not> falsy (tone req) then 1 else 0)"
  using checkAndIncrementUsage_counts(2)[of e "w\<lparr>calls := calls w @ [SubscriptionsQuery]\<rparr>"]
  by (simp add: action_cases Let_def counter_calls_def split: sum.splits)

lemmas eval_defs =
  action_def loader_def usage_or_zero_def checkActiveSubscription_def classify_def
  checkAndIncrementUsage_def getCurrentUsageCount_def getDailyUsage_def saveDailyUsage_def
  getShopId_def getTodayDateString_def generateAIReply_def createSubscription_def
  falsy_def Let_def io_defs DAILY_LIMIT_def
  generation_calls_def counter_calls_def is_generation_def resolver_denies_def counter_allows_def

text \<open>
  Claim C3. In \<open>action\<close>: when the resolver returns a state without access, no metafield
  read is made (the usage counter is not invoked), \<^verbatim>\<open>generateAIReply\<close> is not invoked and
  the stored record is unchanged; when \<^verbatim>\<open>checkAndIncrementUsage\<close> returns a denied
  decision, \<^verbatim>\<open>generateAIReply\<close> is not invoked and the stored record is unchanged. The
  action invokes \<^verbatim>\<open>generateAIReply\<close> once exactly when the resolver did not deny (it
  returned access, or its check threw and the handler went on), both form fields are
  present and the counter returned an allowed decision, and not at all otherwise; it
  invokes the counter once exactly when the resolver did not deny and both form fields are
  present.
\<close>

theorem action_gate_order:
  "(\<forall>st. fst (checkActiveSubscription e w) = Inr st \<and> \<not> hasAccess st \<longrightarrow>
       counter_calls (snd (action e req w)) = counter_calls w
     \<and> generation_calls (snd (action e req w)) = generation_calls w
     \<and> metafield (snd (action e req w)) = metafield w)
   \<and> (\<forall>d. fst (checkAndIncrementUsage e (snd (checkActiveSubscription e w))) = Inr d
           \<and> \<not> allowed d \<longrightarrow>
       generation_calls (snd (action e req w)) = generation_calls w
     \<and> metafield (snd (action e req w)) = metafield w)
   \<and> generation_calls (snd (action e req w)) =
       generation_calls w +
       (if \<not> resolver_denies e w \<and> \<not> falsy (message req) \<and> \<not> falsy (tone req)
           \<and> counter_allows e (snd (checkActiveSubscription e w))
        then 1 else 0)
   \<and> counter_calls (snd (action e req w)) =
       counter_calls w +
       (if \<not> resolver_denies e w \<and> \<not> falsy (message req) \<and> \<not> falsy (tone req)
        then 1 else 0)"
proof -
  define w1 where "w1 = w\<lparr>calls := calls w @ [SubscriptionsQuery]\<rparr>"
  have w1: "snd (checkActiveSubscription e w) = w1"
    by (simp add: w1_def checkActiveSubscription_world)
  have base: "generation_calls w1 = generation_calls w" "counter_calls w1 = counter_calls w"
    "metafield w1 = metafield w"
    by (simp_all add: w1_def generation_calls_def counter_calls_def is_generation_def)
  note cnt = checkAndIncrementUsage_counts[of e w1]
  have gen_after: "generation_calls (x\<lparr>calls := calls x @ [GenerateReply a b]\<rparr>) = generation_calls x + 1"
    for x a b by (simp add: generation_calls_def is_generation_def)
  have cnt_after: "counter_calls (x\<lparr>calls := calls x @ [GenerateReply a b]\<rparr>) = counter_calls x"
    for x a b by (simp add: counter_calls_def)
  have den: "metafield (snd (checkAndIncrementUsage e w1)) = metafield w"
    if "fst (checkAndIncrementUsage e w1) = Inr d" "\<not> allowed d" for d
    using denied_call_leaves_metafield[OF that] base(3) by simp
  have act: "action e req w =
    (if resolver_denies e w
     then (Inr \<lparr>reply = [], error = Some
             ''Subscription required. Your trial has expired or no active subscription found.''\<rparr>, w1)
     else if falsy (message req) \<or> falsy (tone req)
     then (Inr \<lparr>reply = [], error = Some ''Message and tone are required''\<rparr>, w1)
     else (case fst (checkAndIncrementUsage e w1) of
             Inl _ \<Rightarrow> (Inr \<lparr>reply = [], error = Some
                         ''Failed to check usage limit. Please try again.''\<rparr>,
                       snd (checkAndIncrementUsage e w1))
           | Inr d \<Rightarrow>
               if \<not> allowed d
               then (Inr \<lparr>reply = [], error = Some ''Daily limit of 100 replies reached''\<rparr>,
                     snd (checkAndIncrementUsage e w1))
               else (Inr (case generateResponse e of
                            Inl err \<Rightarrow> (case err of Error msg \<Rightarrow> \<lparr>reply = [], error = Some msg\<rparr>)
                          | Inr text \<Rightarrow> \<lparr>reply = text, error = None\<rparr>),
                     (snd (checkAndIncrementUsage e w1))
                       \<lparr>calls := calls (snd (checkAndIncrementUsage e w1))
                                  @ [GenerateReply (message req) (tone req)]\<rparr>)))"
    unfolding action_cases[of e req w] w1_def Let_def by simp
  have p1: "counter_calls (snd (action e req w)) = counter_calls w
     \<and> generation_calls (snd (action e req w)) = generation_calls w
     \<and> metafield (snd (action e req w)) = metafield w"
    if "fst (checkActiveSubscription e w) = Inr st" "\<not> hasAccess st" for st
  proof -
    have "resolver_denies e w" using that by (simp add: resolver_denies_def)
    then show ?thesis by (simp add: act base)
  qed
  have p2: "generation_calls (snd (action e req w)) = generation_calls w
     \<and> metafield (snd (action e req w)) = metafield w"
    if "fst (checkAndIncrementUsage e w1) = Inr d" "\<not> allowed d" for d
    using that den[OF that] by (simp add: act base cnt)
  have p3: "generation_calls (snd (action e req w)) =
       generation_calls w +
       (if \<not> resolver_denies e w \<and> \<not> falsy (message req) \<and> \<not> falsy (tone req)
           \<and> counter_allows e w1 then 1 else 0)"
    by (simp add: act base cnt gen_after counter_allows_def split: sum.splits)
  have p4: "counter_calls (snd (action e req w)) =
       counter_calls w +
       (if \<not> resolver_denies e w \<and> \<not> falsy (message req) \<and> \<not> falsy (tone req)
        then 1 else 0)"
    by (simp add: act base cnt cnt_after split: sum.splits)
  show ?thesis
    unfolding w1 using p1 p2 p3 p4 by blast
qed

theorem action_gate_order_witness:
  "counter_calls (snd (action declined_env example_request example_world)) = 0
   \<and> generation_calls (snd (action declined_env example_request example_world)) = 0
   \<and> generation_calls (snd (action example_env example_request full_world)) = 0
   \<and> metafield (snd (action example_env example_request full_world)) = metafield full_world
   \<and> generation_calls (snd (action example_env example_request example_world)) = 1
   \<and> counter_calls (snd (action example_env example_request example_world)) = 1"
  using action_gate_order [of declined_env example_world example_request]
        action_gate_order [of example_env full_world example_request]
        action_gate_order [of example_env example_world example_request]
  by (simp add: eval_defs declined_env_def declined_subscription_def example_env_def
      example_request_def example_world_def full_world_def)

text \<open>
  Claim C6 says that a throwing read path of the usage counter lets the request proceed.
  It does not: with the metafield query throwing, \<^verbatim>\<open>checkAndIncrementUsage\<close> throws, and
  \<open>action\<close> answers with the same generic message as for a failed write, without invoking
  \<^verbatim>\<open>generateAIReply\<close>.
\<close>

theorem usage_read_failure_denies_request:
  "metafieldQueryFails read_failure_env = Some (Error ''fetch failed'')
   \<and> action read_failure_env example_request example_world =
       (Inr \<lparr>reply = [], error = Some ''Failed to check usage limit. Please try again.''\<rparr>,
        \<lparr>metafield = NoValue, calls = [SubscriptionsQuery, MetafieldQuery]\<rparr>)
   \<and> generation_calls (snd (action read_failure_env example_request example_world)) = 0"
  by (simp add: eval_defs read_failure_env_def example_env_def example_request_def example_world_def)

lemma saveDailyUsage_fails:
  assumes "\<not> writes_succeed e"
  shows "\<exists>err. fst (saveDailyUsage e u w) = Inl err"
  using assms
  by (auto simp: writes_succeed_def saveDailyUsage_def getShopId_def io_defs
      split: sum.splits option.splits)

lemma check_fails_on_write:
  assumes "reads_succeed e" "\<not> writes_succeed e" "\<not> at_limit e w"
  shows "\<exists>err. fst (checkAndIncrementUsage e w) = Inl err"
proof -
  have s: "\<exists>err w'. saveDailyUsage e u (w\<lparr>calls := calls w @ [MetafieldQuery]\<rparr>) = (Inl err, w')" for u
    using saveDailyUsage_fails[OF assms(2), of u "w\<lparr>calls := calls w @ [MetafieldQuery]\<rparr>"]
    by (cases "saveDailyUsage e u (w\<lparr>calls := calls w @ [MetafieldQuery]\<rparr>)") auto
  obtain err1 w1 where s1: "saveDailyUsage e \<lparr>count = 1, date = today e\<rparr>
      (w\<lparr>calls := calls w @ [MetafieldQuery]\<rparr>) = (Inl err1, w1)"
    using s by blast
  show ?thesis
  proof (cases "metafield w")
    case NoValue
    then show ?thesis
      by (simp add: checkAndIncrementUsage_def Let_def getTodayDateString_def
          getDailyUsage_ok[OF assms(1)] bind_io_def s1)
  next
    case Unparseable
    then show ?thesis
      by (simp add: checkAndIncrementUsage_def Let_def getTodayDateString_def
          getDailyUsage_ok[OF assms(1)] bind_io_def s1)
  next
    case (Parsed u)
    obtain err2 w2 where s2: "saveDailyUsage e \<lparr>count = count u + 1, date = today e\<rparr>
        (w\<lparr>calls := calls w @ [MetafieldQuery]\<rparr>) = (Inl err2, w2)"
      using s by blast
    show ?thesis
      using Parsed assms(3)
      by (simp add: checkAndIncrementUsage_def Let_def getTodayDateString_def
          getDailyUsage_ok[OF assms(1)] bind_io_def s1 s2 at_limit_def)
  qed
qed

text \<open>
  Claim C6, amended. For a request that has passed the subscription gate with both form
  fields present: when the metafield query throws, or when the write is attempted and
  fails (the shop id cannot be resolved, or the mutation throws or is answered with
  errors), \<open>action\<close> denies the request with the message
  \<^verbatim>\<open>Failed to check usage limit. Please try again.\<close> and does not invoke
  \<^verbatim>\<open>generateAIReply\<close>.
\<close>

theorem usage_counter_failure_denies_request:
  assumes "\<not> resolver_denies e w" and "\<not> falsy (message req)" and "\<not> falsy (tone req)"
    and "metafieldQueryFails e \<noteq> None \<or> (\<not> writes_succeed e \<and> \<not> at_limit e w)"
  shows "fst (action e req w) =
           Inr \<lparr>reply = [], error = Some ''Failed to check usage limit. Please try again.''\<rparr>
       \<and> generation_calls (snd (action e req w)) = generation_calls w"
proof -
  define w1 where "w1 = w\<lparr>calls := calls w @ [SubscriptionsQuery]\<rparr>"
  have lim: "at_limit e w1 = at_limit e w" by (simp add: w1_def at_limit_def)
  have "\<exists>err. fst (checkAndIncrementUsage e w1) = Inl err"
  proof (cases "metafieldQueryFails e")
    case None
    then have "reads_succeed e" by (simp add: reads_succeed_def)
    then show ?thesis using check_fails_on_write[of e w1] assms(4) None lim by simp
  next
    case (Some err)
    then show ?thesis by (simp add: check_throws)
  qed
  then obtain err where f: "fst (checkAndIncrementUsage e w1) = Inl err" by blast
  have g: "generation_calls (snd (checkAndIncrementUsage e w1)) = generation_calls w"
    using checkAndIncrementUsage_counts(1)[of e w1]
    by (simp add: w1_def generation_calls_def is_generation_def)
  show ?thesis
    using assms(1-3) f g unfolding action_cases[of e req w] Let_def w1_def[symmetric] by simp
qed

theorem usage_counter_failure_denies_request_witness:
  "fst (action read_failure_env example_request example_world) =
      Inr \<lparr>reply = [], error = Some ''Failed to check usage limit. Please try again.''\<rparr>
   \<and> fst (action write_failure_env example_request example_world) =
      Inr \<lparr>reply = [], error = Some ''Failed to check usage limit. Please try again.''\<rparr>
   \<and> generation_calls (snd (action write_failure_env example_request example_world)) = 0"
  using usage_counter_failure_denies_request [of read_failure_env example_world example_request]
        usage_counter_failure_denies_request [of write_failure_env example_world example_request]
  by (simp add: eval_defs read_failure_env_def write_failure_env_def example_env_def
      example_request_def example_world_def writes_succeed_def at_limit_def)

lemma usage_or_zero_returns:
  "\<exists>n. usage_or_zero e mk w = (Inr (mk n), snd (getCurrentUsageCount e w))"
  by (cases "getCurrentUsageCount e w") (auto simp: usage_or_zero_def io_defs split: sum.splits)

text \<open>
  Claim C7. When the subscription check throws, both handlers go on as for a tenant with
  access: \<open>action\<close> and \<open>loader\<close> behave exactly as they do when the provider returns an
  ACTIVE subscription; the loader reports \<^verbatim>\<open>hasSubscription: true\<close> and offers no
  confirmation URL; the action does not deny at the subscription gate and, with both form
  fields present, goes on to the usage counter.
\<close>

theorem subscription_check_failure_fails_open:
  assumes "subscriptionsResponse e = Inl err"
  shows "action e req w = action (e\<lparr>subscriptionsResponse := Inr [active_subscription]\<rparr>) req w
       \<and> loader e req w = loader (e\<lparr>subscriptionsResponse := Inr [active_subscription]\<rparr>) req w
       \<and> (\<exists>d. fst (loader e req w) = Inr d \<and> hasSubscription d \<and> confirmationUrl' d = None)
       \<and> \<not> resolver_denies e w
       \<and> (\<not> falsy (message req) \<and> \<not> falsy (tone req) \<longrightarrow>
            counter_calls (snd (action e req w)) = counter_calls w + 1)"
proof -
  let ?e' = "e\<lparr>subscriptionsResponse := Inr [active_subscription]\<rparr>"
  let ?w1 = "w\<lparr>calls := calls w @ [SubscriptionsQuery]\<rparr>"
  have t: "checkActiveSubscription e w = (Inl err, ?w1)"
    using assms by (simp add: checkActiveSubscription_def io_defs)
  have a: "checkActiveSubscription ?e' w =
      (Inr \<lparr>hasAccess = True, isTrial = False, daysRemaining = None\<rparr>, ?w1)"
    by (simp add: checkActiveSubscription_def io_defs active_subscription_def classify_def)
  have same_read: "getDailyUsage ?e' = getDailyUsage e"
    by (simp add: getDailyUsage_def)
  have same_save: "saveDailyUsage ?e' = saveDailyUsage e"
    by (intro ext) (simp add: saveDailyUsage_def getShopId_def)
  have same_counter: "checkAndIncrementUsage ?e' = checkAndIncrementUsage e"
    by (simp add: checkAndIncrementUsage_def same_read same_save getTodayDateString_def Let_def
        cong: if_cong option.case_cong)
  have same_peek: "getCurrentUsageCount ?e' = getCurrentUsageCount e"
    by (simp add: getCurrentUsageCount_def same_read getTodayDateString_def Let_def
        cong: if_cong option.case_cong)
  have same_gen: "generateAIReply ?e' = generateAIReply e"
    by (intro ext) (simp add: generateAIReply_def)
  have act: "action e req w = action ?e' req w"
    by (simp add: action_def same_counter same_gen bind_io_def[of "catch_io _ _"]
        catch_io_def[of "bind_io (checkActiveSubscription _) _"]
        bind_io_def[of "checkActiveSubscription _"] t a return_io_def)
  define mk :: "int \<Rightarrow> loader_data" where
    "mk = (\<lambda>n. \<lparr>hasSubscription = True, confirmationUrl' = None,
                 usageCount = n, isTrial' = False, daysRemaining' = None\<rparr>)"
  obtain n where peek: "usage_or_zero e mk ?w1 = (Inr (mk n), snd (getCurrentUsageCount e ?w1))"
    using usage_or_zero_returns[of e mk ?w1] by blast
  have thrown: "loader e req w = usage_or_zero e mk ?w1"
    by (simp add: loader_def mk_def catch_io_def[of "bind_io (checkActiveSubscription _) _"]
        bind_io_def[of "checkActiveSubscription _"] t)
  have active: "loader ?e' req w = usage_or_zero e mk ?w1"
    using peek
    by (simp add: loader_def mk_def usage_or_zero_def same_peek
        catch_io_def[of "bind_io (checkActiveSubscription _) _"]
        bind_io_def[of "checkActiveSubscription _"] a)
  have ld: "loader e req w = loader ?e' req w"
    by (simp add: thrown active)
  have granted: "\<exists>d. fst (loader e req w) = Inr d \<and> hasSubscription d \<and> confirmationUrl' d = None"
  proof -
    have "fst (loader e req w) = Inr (mk n)" by (simp add: thrown peek)
    moreover have "hasSubscription (mk n) \<and> confirmationUrl' (mk n) = None" by (simp add: mk_def)
    ultimately show ?thesis by blast
  qed
  have nd: "\<not> resolver_denies e w"
    by (simp add: resolver_denies_def t)
  have proceeds: "counter_calls (snd (action e req w)) = counter_calls w + 1"
    if "\<not> falsy (message req)" "\<not> falsy (tone req)"
    using action_counter_calls[of e req w] nd that by simp
  show ?thesis using act ld granted nd proceeds by blast
qed

theorem subscription_check_failure_fails_open_witness:
  "fst (action billing_down_env example_request example_world) =
      Inr \<lparr>reply = ''Thank you'', error = None\<rparr>
   \<and> fst (loader billing_down_env example_request example_world) =
      Inr \<lparr>hasSubscription = True, confirmationUrl' = None, usageCount = 0,
           isTrial' = False, daysRemaining' = None\<rparr>"
  using subscription_check_failure_fails_open
          [of billing_down_env "Error ''fetch failed''" example_request example_world]
  by (simp add: eval_defs billing_down_env_def example_env_def example_request_def
      example_world_def active_subscription_def)

end
